theory Spec2Isabelle
  imports Main "HOL-Library.AList"
begin

section \<open>The task merger of \<^verbatim>\<open>scripts/merge_tasks.py\<close>\<close>

text \<open>
  The script loads two JSON documents, \<^verbatim>\<open>existing_tasks\<close> and \<^verbatim>\<open>new_tasks\<close>, builds a
  dictionary of the existing tasks keyed by their \<^verbatim>\<open>id\<close>, and writes a document whose
  \<^verbatim>\<open>tasks\<close> are the new tasks with \<^verbatim>\<open>status\<close> and \<^verbatim>\<open>subtasks\<close> taken from the existing
  task of the same \<^verbatim>\<open>id\<close>. The model covers lines 13 to 25: everything between the two
  calls of \<^verbatim>\<open>json.load\<close> and the call of \<^verbatim>\<open>json.dump\<close>. Reading, parsing and writing
  files are outside of it.
\<close>

subsection \<open>Values\<close>

text \<open>
  What \<^verbatim>\<open>json.load\<close> returns: \<^verbatim>\<open>None\<close>, a \<^verbatim>\<open>bool\<close>, an \<^verbatim>\<open>int\<close>, a \<^verbatim>\<open>str\<close>, a \<^verbatim>\<open>list\<close>
  or a \<^verbatim>\<open>dict\<close> with string keys. Numbers are the integers (Python's are unbounded);
  floating-point numbers are not modelled. A \<^verbatim>\<open>dict\<close> is the list of its items in
  insertion order, which is the order \<^verbatim>\<open>json.dump\<close> writes them in.
\<close>

datatype json =
    JNull
  | JBool bool
  | JInt int
  | JStr string
  | JList "json list"
  | JDict "(string \<times> json) list"

type_synonym task = "(string \<times> json) list"

text \<open>
  The exceptions lines 13 to 25 can raise: \<^verbatim>\<open>KeyError\<close> with the missing key, and
  \<^verbatim>\<open>TypeError\<close> (subscripting or iterating a value that does not support it, unpacking a
  value that is not a mapping, an unhashable dictionary key).
\<close>

datatype error = KeyError string | TypeError

text \<open>
  The keys of \<^verbatim>\<open>existing_tasks_map\<close>. Python compares dictionary keys with \<^verbatim>\<open>==\<close> after
  hashing, and \<^verbatim>\<open>True == 1\<close>, \<^verbatim>\<open>False == 0\<close>: a boolean and the integer it equals are
  one key. Lists and dictionaries are unhashable.
\<close>

datatype pykey = KNone | KInt int | KStr string

fun py_hash :: "json \<Rightarrow> error + pykey" where
  "py_hash JNull = Inr KNone"
| "py_hash (JBool b) = Inr (KInt (if b then 1 else 0))"
| "py_hash (JInt i) = Inr (KInt i)"
| "py_hash (JStr s) = Inr (KStr s)"
| "py_hash (JList xs) = Inl TypeError"
| "py_hash (JDict kvs) = Inl TypeError"

text \<open>\<^verbatim>\<open>v[k]\<close> for a string \<^verbatim>\<open>k\<close>: only a \<^verbatim>\<open>dict\<close> can be subscripted by a string.\<close>

fun py_getitem :: "json \<Rightarrow> string \<Rightarrow> error + json" where
  "py_getitem (JDict kvs) k =
     (case map_of kvs k of None \<Rightarrow> Inl (KeyError k) | Some v \<Rightarrow> Inr v)"
| "py_getitem v k = Inl TypeError"

text \<open>\<^verbatim>\<open>d.get(k, default)\<close> on a \<^verbatim>\<open>dict\<close>.\<close>

definition dict_get :: "task \<Rightarrow> string \<Rightarrow> json \<Rightarrow> json" where
  "dict_get d k dflt = (case map_of d k of None \<Rightarrow> dflt | Some v \<Rightarrow> v)"

text \<open>
  \<^verbatim>\<open>for x in v\<close>: a list yields its elements, a \<^verbatim>\<open>dict\<close> its keys, a string its
  characters as strings of length one; nothing else is iterable.
\<close>

fun py_iter :: "json \<Rightarrow> error + json list" where
  "py_iter (JList xs) = Inr xs"
| "py_iter (JDict kvs) = Inr (map (\<lambda>kv. JStr (fst kv)) kvs)"
| "py_iter (JStr s) = Inr (map (\<lambda>c. JStr [c]) s)"
| "py_iter v = Inl TypeError"

subsection \<open>Line 13: the dictionary of the existing tasks\<close>

text \<open>
  \<^verbatim>\<open>{task['id']: task for task in existing_tasks['tasks']}\<close>. The dictionary is the
  list of its items; storing under a key it already holds replaces the value in place,
  storing under a new key appends. The comprehension stores the tasks in sequence order,
  so a later task replaces an earlier one with the same key;
  it stops at the first task that cannot be subscripted, has no \<^verbatim>\<open>id\<close>, or has an
  unhashable one.
\<close>

fun tasks_by_id :: "(pykey \<times> task) list \<Rightarrow> json list \<Rightarrow> error + (pykey \<times> task) list" where
  "tasks_by_id m [] = Inr m"
| "tasks_by_id m (JDict kvs # rest) =
     (case map_of kvs ''id'' of
        None \<Rightarrow> Inl (KeyError ''id'')
      | Some v \<Rightarrow>
          (case py_hash v of
             Inl e \<Rightarrow> Inl e
           | Inr k \<Rightarrow> tasks_by_id (AList.update k kvs m) rest))"
| "tasks_by_id m (v # rest) = Inl TypeError"

definition existing_tasks_map :: "json \<Rightarrow> error + (pykey \<times> task) list" where
  "existing_tasks_map existing_tasks =
     (case py_getitem existing_tasks ''tasks'' of
        Inl e \<Rightarrow> Inl e
      | Inr ts \<Rightarrow>
          (case py_iter ts of
             Inl e \<Rightarrow> Inl e
           | Inr xs \<Rightarrow> tasks_by_id [] xs))"

subsection \<open>Lines 16 to 25: the merged document\<close>

text \<open>
  One element of the list comprehension,
  \<^verbatim>\<open>{**new_task, 'status': m.get(new_task['id'], {}).get('status', new_task['status']),
     'subtasks': m.get(new_task['id'], {}).get('subtasks', new_task.get('subtasks', []))}\<close>.
  Python evaluates the arguments of a call before the call: \<^verbatim>\<open>new_task['id']\<close> and then
  \<^verbatim>\<open>new_task['status']\<close> are evaluated whatever the dictionary holds. A key the display
  repeats keeps its place and takes the later value; a new key goes to the end.
\<close>

fun merged_task :: "(pykey \<times> task) list \<Rightarrow> json \<Rightarrow> error + json" where
  "merged_task m (JDict new_task) =
     (case map_of new_task ''id'' of
        None \<Rightarrow> Inl (KeyError ''id'')
      | Some v \<Rightarrow>
          (case py_hash v of
             Inl e \<Rightarrow> Inl e
           | Inr k \<Rightarrow>
               (case map_of new_task ''status'' of
                  None \<Rightarrow> Inl (KeyError ''status'')
                | Some s \<Rightarrow>
                    (let old = (case map_of m k of None \<Rightarrow> [] | Some t \<Rightarrow> t);
                         status = dict_get old ''status'' s;
                         subtasks = dict_get old ''subtasks''
                                      (dict_get new_task ''subtasks'' (JList []))
                     in Inr (JDict (AList.update ''subtasks'' subtasks
                                     (AList.update ''status'' status new_task)))))))"
| "merged_task m v = Inl TypeError"

text \<open>The list comprehension: the new tasks in order, stopping at the first exception.\<close>

fun merge_each :: "(pykey \<times> task) list \<Rightarrow> json list \<Rightarrow> error + json list" where
  "merge_each m [] = Inr []"
| "merge_each m (new_task # rest) =
     (case merged_task m new_task of
        Inl e \<Rightarrow> Inl e
      | Inr t \<Rightarrow>
          (case merge_each m rest of
             Inl e \<Rightarrow> Inl e
           | Inr ts \<Rightarrow> Inr (t # ts)))"

definition merged_tasks :: "(pykey \<times> task) list \<Rightarrow> json \<Rightarrow> error + json" where
  "merged_tasks m new_tasks =
     (case py_getitem new_tasks ''tasks'' of
        Inl e \<Rightarrow> Inl e
      | Inr ts \<Rightarrow>
          (case py_iter ts of
             Inl e \<Rightarrow> Inl e
           | Inr xs \<Rightarrow>
               (case merge_each m xs of
                  Inl e \<Rightarrow> Inl e
                | Inr ys \<Rightarrow> Inr (JDict [(''tasks'', JList ys)]))))"

text \<open>
  The script from line 13 to line 25: the value written to the merged file, or the
  exception that ends the run before the file is opened.
\<close>

definition merge_tasks :: "json \<Rightarrow> json \<Rightarrow> error + json" where
  "merge_tasks existing_tasks new_tasks =
     (case existing_tasks_map existing_tasks of
        Inl e \<Rightarrow> Inl e
      | Inr m \<Rightarrow> merged_tasks m new_tasks)"

subsection \<open>Vocabulary of the properties\<close>

text \<open>The task sequence of a collection: what iterating its \<^verbatim>\<open>tasks\<close> yields.\<close>

definition tasks_of :: "json \<Rightarrow> error + json list" where
  "tasks_of doc =
     (case py_getitem doc ''tasks'' of Inl e \<Rightarrow> Inl e | Inr ts \<Rightarrow> py_iter ts)"

text \<open>The same sequence as a list, empty where the document has none.\<close>

definition task_list :: "json \<Rightarrow> json list" where
  "task_list doc = (case tasks_of doc of Inl e \<Rightarrow> [] | Inr xs \<Rightarrow> xs)"

text \<open>A field of an entry, \<open>None\<close> when the entry has no such field.\<close>

fun field :: "string \<Rightarrow> json \<Rightarrow> json option" where
  "field f (JDict kvs) = map_of kvs f"
| "field f v = None"

text \<open>The dictionary key of an entry: its \<^verbatim>\<open>id\<close>, hashed.\<close>

definition task_key :: "json \<Rightarrow> error + pykey" where
  "task_key t = (case py_getitem t ''id'' of Inl e \<Rightarrow> Inl e | Inr v \<Rightarrow> py_hash v)"

text \<open>
  An entry that raises no \<^verbatim>\<open>TypeError\<close>: a \<^verbatim>\<open>dict\<close> whose \<^verbatim>\<open>id\<close>, when it has one, is
  hashable.
\<close>

definition hashable_entry :: "json \<Rightarrow> bool" where
  "hashable_entry t =
     (case t of
        JDict kvs \<Rightarrow>
          (case map_of kvs ''id'' of
             None \<Rightarrow> True
           | Some v \<Rightarrow> (case py_hash v of Inl e \<Rightarrow> False | Inr k \<Rightarrow> True))
      | _ \<Rightarrow> False)"

section \<open>Example documents\<close>

text \<open>The example of the specification: old tasks 1 and 2, new tasks 1 and 3.\<close>

definition old_task_1 :: task where
  "old_task_1 = [(''id'', JInt 1), (''status'', JStr ''done''),
                 (''subtasks'', JList [JDict [(''id'', JStr ''1.1'')]])]"

definition old_task_2 :: task where
  "old_task_2 = [(''id'', JInt 2), (''status'', JStr ''pending'')]"

definition new_task_1 :: task where
  "new_task_1 = [(''id'', JInt 1), (''status'', JStr ''pending''), (''title'', JStr ''A'')]"

definition new_task_3 :: task where
  "new_task_3 = [(''id'', JInt 3), (''status'', JStr ''pending''), (''title'', JStr ''C'')]"

definition example_old :: json where
  "example_old = JDict [(''tasks'', JList [JDict old_task_1, JDict old_task_2])]"

definition example_new :: json where
  "example_new = JDict [(''tasks'', JList [JDict new_task_1, JDict new_task_3])]"

definition example_merged :: json where
  "example_merged = JDict [(''tasks'', JList [
     JDict [(''id'', JInt 1), (''status'', JStr ''done''), (''title'', JStr ''A''),
            (''subtasks'', JList [JDict [(''id'', JStr ''1.1'')]])],
     JDict [(''id'', JInt 3), (''status'', JStr ''pending''), (''title'', JStr ''C''),
            (''subtasks'', JList [])]])]"

text \<open>An old task without \<^verbatim>\<open>subtasks\<close> and a new task of the same \<^verbatim>\<open>id\<close> that has some.\<close>

definition plain_old :: json where
  "plain_old = JDict [(''tasks'', JList [JDict [(''id'', JInt 1), (''status'', JStr ''done'')]])]"

definition detailed_task :: task where
  "detailed_task = [(''id'', JInt 1), (''status'', JStr ''pending''), (''title'', JStr ''A''),
                    (''subtasks'', JList [JDict [(''id'', JStr ''1.1'')]])]"

definition detailed_new :: json where
  "detailed_new = JDict [(''tasks'', JList [JDict detailed_task])]"

definition detailed_merged :: json where
  "detailed_merged = JDict [(''tasks'', JList [JDict
     [(''id'', JInt 1), (''status'', JStr ''done''), (''title'', JStr ''A''),
      (''subtasks'', JList [JDict [(''id'', JStr ''1.1'')]])]])]"


text \<open>A new collection whose task has no \<^verbatim>\<open>id\<close>, and one whose task has no \<^verbatim>\<open>status\<close>.\<close>

definition idless_task :: task where
  "idless_task = [(''status'', JStr ''pending''), (''title'', JStr ''A'')]"

definition idless_new :: json where
  "idless_new = JDict [(''tasks'', JList [JDict idless_task])]"

definition statusless_task :: task where
  "statusless_task = [(''id'', JInt 1), (''title'', JStr ''A'')]"

definition statusless_new :: json where
  "statusless_new = JDict [(''tasks'', JList [JDict statusless_task])]"

section \<open>Evaluation of the examples\<close>

lemma example_eval: "merge_tasks example_old example_new = Inr example_merged"
  by (simp add: merge_tasks_def existing_tasks_map_def merged_tasks_def dict_get_def
      example_old_def example_new_def example_merged_def
      old_task_1_def old_task_2_def new_task_1_def new_task_3_def)

lemma task_list_example_merged:
  "task_list example_merged =
     [JDict [(''id'', JInt 1), (''status'', JStr ''done''), (''title'', JStr ''A''),
             (''subtasks'', JList [JDict [(''id'', JStr ''1.1'')]])],
      JDict [(''id'', JInt 3), (''status'', JStr ''pending''), (''title'', JStr ''C''),
             (''subtasks'', JList [])]]"
  by (simp add: task_list_def tasks_of_def example_merged_def)

lemma example_old_tasks: "tasks_of example_old = Inr [JDict old_task_1, JDict old_task_2]"
  by (simp add: tasks_of_def example_old_def)

lemma example_new_tasks: "task_list example_new = [JDict new_task_1, JDict new_task_3]"
  by (simp add: task_list_def tasks_of_def example_new_def)

lemma example_keys:
  "task_key (JDict old_task_1) = Inr (KInt 1)" "task_key (JDict old_task_2) = Inr (KInt 2)"
  "task_key (JDict new_task_1) = Inr (KInt 1)" "task_key (JDict new_task_3) = Inr (KInt 3)"
  by (simp_all add: task_key_def old_task_1_def old_task_2_def new_task_1_def new_task_3_def)

lemma status_error_before_missing_id:
  "merge_tasks example_old
     (JDict [(''tasks'', JList [JDict statusless_task, JDict idless_task])]) =
   Inl (KeyError ''status'')"
  by (simp add: merge_tasks_def existing_tasks_map_def merged_tasks_def example_old_def
      old_task_1_def old_task_2_def statusless_task_def idless_task_def)

section \<open>The dictionary of the existing tasks\<close>

lemma tasks_by_id_append:
  "tasks_by_id m (xs @ ys) =
     (case tasks_by_id m xs of Inl e \<Rightarrow> Inl e | Inr m' \<Rightarrow> tasks_by_id m' ys)"
  by (induction m xs rule: tasks_by_id.induct) (auto split: option.splits sum.splits)

lemma task_key_JDict:
  "task_key (JDict kvs) = Inr k \<longleftrightarrow> (\<exists>v. map_of kvs ''id'' = Some v \<and> py_hash v = Inr k)"
  by (auto simp: task_key_def split: option.splits)

lemma task_key_InrD: "task_key t = Inr k \<Longrightarrow> \<exists>kvs. t = JDict kvs"
  by (cases t) (auto simp: task_key_def)

lemma task_key_field: "task_key t = Inr k \<Longrightarrow> field ''id'' t \<noteq> None"
  by (cases t) (auto simp: task_key_def split: option.splits)

lemma tasks_by_id_other:
  "tasks_by_id m xs = Inr m' \<Longrightarrow> \<forall>x\<in>set xs. task_key x \<noteq> Inr k \<Longrightarrow> map_of m' k = map_of m k"
  by (induction m xs rule: tasks_by_id.induct)
    (auto split: option.splits sum.splits simp: task_key_JDict update_conv')

lemma tasks_by_id_last:
  assumes "tasks_by_id m (pre @ JDict t # post) = Inr m'" "task_key (JDict t) = Inr k"
    "\<forall>x\<in>set post. task_key x \<noteq> Inr k"
  shows "map_of m' k = Some t"
  using assms
  by (auto simp: tasks_by_id_append task_key_JDict update_conv' split: sum.splits option.splits
      dest!: tasks_by_id_other[where k = k])

lemma tasks_by_id_Inr_iff:
  "(\<exists>m'. tasks_by_id m xs = Inr m') \<longleftrightarrow> (\<forall>x\<in>set xs. \<exists>k. task_key x = Inr k)"
  by (induction m xs rule: tasks_by_id.induct)
    (auto split: option.splits sum.splits simp: task_key_def)

lemma tasks_by_id_error:
  "\<forall>x\<in>set xs. hashable_entry x \<Longrightarrow> tasks_by_id m xs = Inl e \<Longrightarrow> e = KeyError ''id''"
  by (induction m xs rule: tasks_by_id.induct)
    (auto simp: hashable_entry_def split: option.splits sum.splits)

lemma distinct_map_later:
  assumes "distinct (map f xs)" "i < length xs"
  shows "\<forall>x\<in>set (drop (Suc i) xs). f x \<noteq> f (xs ! i)"
proof
  fix x assume "x \<in> set (drop (Suc i) xs)"
  then obtain j where j: "j < length xs - Suc i" "x = xs ! (Suc i + j)"
    by (auto simp: in_set_conv_nth)
  then have "Suc i + j < length xs" "Suc i + j \<noteq> i" by simp_all
  with assms have "map f xs ! (Suc i + j) \<noteq> map f xs ! i"
    by (simp add: nth_eq_iff_index_eq del: nth_map)
  with j assms(2) show "f x \<noteq> f (xs ! i)" by simp
qed

section \<open>One merged task\<close>

lemma update_absent: "map_of al k = None \<Longrightarrow> AList.update k v al = al @ [(k, v)]"
  by (induction al) (auto split: if_splits)

lemma merged_task_InrD:
  assumes "merged_task m n = Inr t"
  obtains kvs v k s where "n = JDict kvs" "map_of kvs ''id'' = Some v" "py_hash v = Inr k"
    "map_of kvs ''status'' = Some s"
    "t = JDict (AList.update ''subtasks''
           (dict_get (case map_of m k of None \<Rightarrow> [] | Some old \<Rightarrow> old) ''subtasks''
              (dict_get kvs ''subtasks'' (JList [])))
           (AList.update ''status''
              (dict_get (case map_of m k of None \<Rightarrow> [] | Some old \<Rightarrow> old) ''status'' s) kvs))"
  using assms by (cases n) (auto split: option.splits sum.splits simp: Let_def)

lemma merged_task_eq:
  assumes "task_key (JDict new) = Inr k" "map_of new ''status'' = Some s"
  shows "merged_task m (JDict new) =
         Inr (JDict (AList.update ''subtasks''
           (dict_get (case map_of m k of None \<Rightarrow> [] | Some old \<Rightarrow> old) ''subtasks''
              (dict_get new ''subtasks'' (JList [])))
           (AList.update ''status''
              (dict_get (case map_of m k of None \<Rightarrow> [] | Some old \<Rightarrow> old) ''status'' s) new)))"
  using assms by (auto simp: task_key_JDict Let_def)

lemma merged_task_Inr_iff:
  "(\<exists>y. merged_task m x = Inr y) \<longleftrightarrow>
     (\<exists>k. task_key x = Inr k) \<and> field ''status'' x \<noteq> None"
  by (cases x) (auto simp: task_key_def Let_def split: option.splits sum.splits)

lemma merged_task_field:
  assumes "merged_task m n = Inr t" "f \<noteq> ''status''" "f \<noteq> ''subtasks''"
  shows "field f t = field f n"
  using assms by (auto elim!: merged_task_InrD simp: update_conv')

lemma merged_task_key:
  assumes "merged_task m n = Inr t"
  shows "task_key t = task_key n"
  using assms by (auto elim!: merged_task_InrD simp: update_conv' task_key_def)

lemma merged_task_again:
  assumes "merged_task m n = Inr (JDict t)" "task_key n = Inr k" "map_of m2 k = Some t"
  shows "merged_task m2 n = Inr (JDict t)"
proof -
  from assms(1) obtain kvs v k' s where n: "n = JDict kvs"
    and v: "map_of kvs ''id'' = Some v" "py_hash v = Inr k'"
    and s: "map_of kvs ''status'' = Some s"
    and t: "JDict t = JDict (AList.update ''subtasks''
           (dict_get (case map_of m k' of None \<Rightarrow> [] | Some old \<Rightarrow> old) ''subtasks''
              (dict_get kvs ''subtasks'' (JList [])))
           (AList.update ''status''
              (dict_get (case map_of m k' of None \<Rightarrow> [] | Some old \<Rightarrow> old) ''status'' s) kvs))"
    by (rule merged_task_InrD)
  from assms(2) n have key: "task_key (JDict kvs) = Inr k" by simp
  define st where "st = dict_get (case map_of m k' of None \<Rightarrow> [] | Some old \<Rightarrow> old) ''subtasks''
              (dict_get kvs ''subtasks'' (JList []))"
  define s' where "s' = dict_get (case map_of m k' of None \<Rightarrow> [] | Some old \<Rightarrow> old) ''status'' s"
  from t have t': "t = AList.update ''subtasks'' st (AList.update ''status'' s' kvs)"
    by (simp add: st_def s'_def)
  have get: "dict_get t ''status'' s = s'" "dict_get t ''subtasks'' d = st" for d
    by (simp_all add: t' dict_get_def update_conv')
  from merged_task_eq [OF key s, of m2] assms(3)
  show ?thesis
    unfolding n by (simp add: get) (simp add: t')
qed

lemma merged_task_error:
  "hashable_entry x \<Longrightarrow> merged_task m x = Inl e \<Longrightarrow>
     e = KeyError ''id'' \<or> e = KeyError ''status''"
  by (cases x) (auto simp: hashable_entry_def Let_def split: option.splits sum.splits)

lemma merged_task_status_error:
  "merged_task m n = Inl (KeyError ''status'') \<Longrightarrow>
     field ''status'' n = None \<and> field ''id'' n \<noteq> None"
  by (cases n) (auto simp: Let_def split: option.splits sum.splits elim!: py_hash.elims)

section \<open>The whole merge\<close>

lemma merge_each_list_all2:
  "merge_each m xs = Inr ys \<longleftrightarrow> list_all2 (\<lambda>x y. merged_task m x = Inr y) xs ys"
proof (induction xs arbitrary: ys)
  case Nil
  show ?case by auto
next
  case (Cons x xs)
  show ?case
    by (cases ys) (auto simp: Cons.IH[symmetric] split: sum.splits)
qed

lemma merge_each_append:
  "merge_each m (xs @ ys) =
     (case merge_each m xs of
        Inl e \<Rightarrow> Inl e
      | Inr a \<Rightarrow> (case merge_each m ys of Inl e \<Rightarrow> Inl e | Inr b \<Rightarrow> Inr (a @ b)))"
  by (induction xs) (auto split: sum.splits)

lemma merge_each_Inr_iff:
  "(\<exists>ys. merge_each m xs = Inr ys) \<longleftrightarrow>
     (\<forall>x\<in>set xs. (\<exists>k. task_key x = Inr k) \<and> field ''status'' x \<noteq> None)"
proof (induction xs)
  case Nil
  show ?case by simp
next
  case (Cons x xs)
  have "(\<exists>ys. merge_each m (x # xs) = Inr ys) \<longleftrightarrow>
        (\<exists>y. merged_task m x = Inr y) \<and> (\<exists>ys. merge_each m xs = Inr ys)"
    by (auto split: sum.splits)
  then show ?case
    unfolding Cons.IH merged_task_Inr_iff by simp
qed

lemma merge_each_error:
  "\<forall>x\<in>set xs. hashable_entry x \<Longrightarrow> merge_each m xs = Inl e \<Longrightarrow>
     e = KeyError ''id'' \<or> e = KeyError ''status''"
proof (induction xs)
  case Nil
  then show ?case by simp
next
  case (Cons x xs)
  show ?case
  proof (cases "merged_task m x")
    case (Inl e')
    with Cons.prems show ?thesis
      using merged_task_error [of x m e'] by simp
  next
    case (Inr y)
    with Cons show ?thesis by (auto split: sum.splits)
  qed
qed

lemma merge_each_first_error:
  "merge_each m xs = Inl e \<Longrightarrow>
     \<exists>pre n post ms. xs = pre @ n # post \<and> merge_each m pre = Inr ms \<and>
        merged_task m n = Inl e"
proof (induction xs)
  case Nil
  then show ?case by simp
next
  case (Cons x xs)
  show ?case
  proof (cases "merged_task m x")
    case (Inl e')
    with Cons.prems have "e' = e" by simp
    with Inl have "x # xs = [] @ x # xs \<and> merge_each m [] = Inr [] \<and> merged_task m x = Inl e"
      by simp
    then show ?thesis by blast
  next
    case (Inr y)
    with Cons.prems have "merge_each m xs = Inl e"
      by (simp split: sum.splits)
    from Cons.IH [OF this] obtain pre n post ms where
      *: "xs = pre @ n # post" "merge_each m pre = Inr ms" "merged_task m n = Inl e"
      by blast
    from * Inr have "x # xs = (x # pre) @ n # post \<and> merge_each m (x # pre) = Inr (y # ms) \<and>
        merged_task m n = Inl e"
      by simp
    then show ?thesis by blast
  qed
qed

lemma merged_tasks_unfold:
  "merged_tasks m nw =
     (case tasks_of nw of
        Inl e \<Rightarrow> Inl e
      | Inr news \<Rightarrow>
          (case merge_each m news of
             Inl e \<Rightarrow> Inl e
           | Inr ms \<Rightarrow> Inr (JDict [(''tasks'', JList ms)])))"
  by (simp add: merged_tasks_def tasks_of_def split: sum.splits)

lemma merge_tasks_unfold:
  "merge_tasks ex nw =
     (case tasks_of ex of
        Inl e \<Rightarrow> Inl e
      | Inr olds \<Rightarrow>
          (case tasks_by_id [] olds of
             Inl e \<Rightarrow> Inl e
           | Inr m \<Rightarrow>
               (case tasks_of nw of
                  Inl e \<Rightarrow> Inl e
                | Inr news \<Rightarrow>
                    (case merge_each m news of
                       Inl e \<Rightarrow> Inl e
                     | Inr ms \<Rightarrow> Inr (JDict [(''tasks'', JList ms)])))))"
  by (simp add: merge_tasks_def existing_tasks_map_def merged_tasks_def tasks_of_def
      split: sum.splits)

lemma merge_tasks_Inr_iff:
  "merge_tasks ex nw = Inr out \<longleftrightarrow>
   (\<exists>olds m news ms. tasks_of ex = Inr olds \<and> tasks_by_id [] olds = Inr m \<and>
      tasks_of nw = Inr news \<and> merge_each m news = Inr ms \<and>
      out = JDict [(''tasks'', JList ms)])"
  by (auto simp: merge_tasks_def existing_tasks_map_def merged_tasks_def tasks_of_def
      split: sum.splits)

lemma merge_tasks_InrD:
  assumes "merge_tasks ex nw = Inr merged"
  obtains m where "existing_tasks_map ex = Inr m"
    "tasks_of ex = Inr (task_list ex)" "tasks_by_id [] (task_list ex) = Inr m"
    "tasks_of nw = Inr (task_list nw)"
    "merged = JDict [(''tasks'', JList (task_list merged))]"
    "tasks_of merged = Inr (task_list merged)"
    "list_all2 (\<lambda>x y. merged_task m x = Inr y) (task_list nw) (task_list merged)"
proof -
  from assms obtain olds m news ms where *: "tasks_of ex = Inr olds"
    "tasks_by_id [] olds = Inr m" "tasks_of nw = Inr news" "merge_each m news = Inr ms"
    "merged = JDict [(''tasks'', JList ms)]"
    unfolding merge_tasks_Inr_iff by blast
  have "existing_tasks_map ex = Inr m"
    using *(1,2) by (auto simp: existing_tasks_map_def tasks_of_def split: sum.splits)
  moreover have "tasks_of merged = Inr ms" using *(5) by (simp add: tasks_of_def)
  ultimately show ?thesis
    using * that[of m] by (simp add: task_list_def merge_each_list_all2)
qed

lemma merge_tasks_not_Inr:
  assumes "\<And>merged. merge_tasks ex nw \<noteq> Inr merged"
  shows "\<exists>e. merge_tasks ex nw = Inl e"
  using assms by (cases "merge_tasks ex nw") auto

lemma merge_needs_all_fields:
  assumes "merge_tasks ex nw = Inr merged"
  shows "\<forall>t\<in>set (task_list ex). field ''id'' t \<noteq> None"
    and "\<forall>t\<in>set (task_list nw). field ''id'' t \<noteq> None \<and> field ''status'' t \<noteq> None"
proof -
  from assms obtain m where m: "tasks_by_id [] (task_list ex) = Inr m"
    and all2: "list_all2 (\<lambda>x y. merged_task m x = Inr y) (task_list nw) (task_list merged)"
    by (rule merge_tasks_InrD)
  from m have "\<forall>t\<in>set (task_list ex). \<exists>k. task_key t = Inr k"
    using tasks_by_id_Inr_iff [of "[]" "task_list ex"] by blast
  then show "\<forall>t\<in>set (task_list ex). field ''id'' t \<noteq> None"
    by (blast dest: task_key_field)
  from all2 have "merge_each m (task_list nw) = Inr (task_list merged)"
    by (simp add: merge_each_list_all2)
  then have "\<forall>t\<in>set (task_list nw). (\<exists>k. task_key t = Inr k) \<and> field ''status'' t \<noteq> None"
    using merge_each_Inr_iff [of m "task_list nw"] by blast
  then show "\<forall>t\<in>set (task_list nw). field ''id'' t \<noteq> None \<and> field ''status'' t \<noteq> None"
    by (blast dest: task_key_field)
qed

lemma idless_old_error:
  assumes "tasks_of ex = Inr olds" and "t \<in> set olds" and "field ''id'' t = None"
    and "\<forall>x\<in>set olds. hashable_entry x"
  shows "merge_tasks ex nw = Inl (KeyError ''id'')"
proof (cases "tasks_by_id [] olds")
  case (Inl e)
  with assms(4) have "e = KeyError ''id''" by (simp add: tasks_by_id_error)
  with Inl assms(1) show ?thesis by (simp add: merge_tasks_unfold)
next
  case (Inr m)
  then have "\<forall>x\<in>set olds. \<exists>k. task_key x = Inr k"
    using tasks_by_id_Inr_iff [of "[]" olds] by blast
  with assms(2) have "field ''id'' t \<noteq> None" by (blast dest: task_key_field)
  with assms(3) show ?thesis by simp
qed

lemma merged_entry_at:
  assumes "merge_tasks ex nw = Inr merged" "i < length (task_list nw)"
  obtains m where "existing_tasks_map ex = Inr m" "tasks_of ex = Inr (task_list ex)"
    "tasks_by_id [] (task_list ex) = Inr m"
    "merged_task m (task_list nw ! i) = Inr (task_list merged ! i)"
proof -
  from assms(1) obtain m where m: "existing_tasks_map ex = Inr m"
    "tasks_of ex = Inr (task_list ex)" "tasks_by_id [] (task_list ex) = Inr m"
    "list_all2 (\<lambda>x y. merged_task m x = Inr y) (task_list nw) (task_list merged)"
    by (rule merge_tasks_InrD)
  from m(4) assms(2) have "merged_task m (task_list nw ! i) = Inr (task_list merged ! i)"
    by (rule list_all2_nthD)
  with m(1-3) show ?thesis by (rule that)
qed

lemma merged_entry_matched:
  assumes merge: "merge_tasks ex nw = Inr merged"
    and olds: "tasks_of ex = Inr (pre @ JDict old # post)"
    and key_old: "task_key (JDict old) = Inr k"
    and last: "\<forall>t\<in>set post. task_key t \<noteq> Inr k"
    and i: "i < length (task_list nw)" "task_list nw ! i = JDict new"
    and key_new: "task_key (JDict new) = Inr k"
  obtains s where "map_of new ''status'' = Some s"
    "task_list merged ! i =
       JDict (AList.update ''subtasks''
               (dict_get old ''subtasks'' (dict_get new ''subtasks'' (JList [])))
               (AList.update ''status'' (dict_get old ''status'' s) new))"
proof -
  from merge i(1) obtain m where m: "tasks_by_id [] (task_list ex) = Inr m"
    "merged_task m (task_list nw ! i) = Inr (task_list merged ! i)"
    by (rule merged_entry_at)
  from olds have "task_list ex = pre @ JDict old # post" by (simp add: task_list_def)
  with m(1) key_old last have look: "map_of m k = Some old"
    by (simp add: tasks_by_id_last)
  from m(2) i(2) have "merged_task m (JDict new) = Inr (task_list merged ! i)"
    by simp
  then obtain s where s: "map_of new ''status'' = Some s"
    by (elim merged_task_InrD) auto
  from merged_task_eq [OF key_new s, of m] m(2) i(2) look
  have "task_list merged ! i =
       JDict (AList.update ''subtasks''
               (dict_get old ''subtasks'' (dict_get new ''subtasks'' (JList [])))
               (AList.update ''status'' (dict_get old ''status'' s) new))"
    by simp
  with s show ?thesis by (rule that)
qed

section \<open>Properties of the merge\<close>

text \<open>
  Claim C1, as the code has it. For a new task whose \<^verbatim>\<open>id\<close> is the key of an old task
  (the last old task with that key): the merged \<^verbatim>\<open>status\<close> is the old task's when the
  old task has one and the new task's otherwise; the merged \<^verbatim>\<open>subtasks\<close> is the old
  task's when the old task has one, otherwise the new task's, otherwise the empty list;
  every other field is the new task's.
\<close>

theorem matched_task_fields:
  assumes "merge_tasks existing_tasks new_tasks = Inr merged"
    and "tasks_of existing_tasks = Inr (pre @ JDict old # post)"
    and "task_key (JDict old) = Inr k"
    and "\<forall>t\<in>set post. task_key t \<noteq> Inr k"
    and "i < length (task_list new_tasks)" and "task_list new_tasks ! i = JDict new"
    and "task_key (JDict new) = Inr k"
  shows "field ''status'' (task_list merged ! i) =
           (case field ''status'' (JDict old) of
              Some s \<Rightarrow> Some s
            | None \<Rightarrow> field ''status'' (JDict new)) \<and>
         field ''subtasks'' (task_list merged ! i) =
           (case field ''subtasks'' (JDict old) of
              Some u \<Rightarrow> Some u
            | None \<Rightarrow>
                (case field ''subtasks'' (JDict new) of
                   Some u \<Rightarrow> Some u
                 | None \<Rightarrow> Some (JList []))) \<and>
         (\<forall>f. f \<noteq> ''status'' \<and> f \<noteq> ''subtasks'' \<longrightarrow>
            field f (task_list merged ! i) = field f (JDict new))"
proof -
  from assms obtain s where s: "map_of new ''status'' = Some s"
    and out: "task_list merged ! i =
       JDict (AList.update ''subtasks''
               (dict_get old ''subtasks'' (dict_get new ''subtasks'' (JList [])))
               (AList.update ''status'' (dict_get old ''status'' s) new))"
    by (rule merged_entry_matched)
  show ?thesis
    unfolding out using s
    by (simp add: update_conv' dict_get_def split: option.splits)
qed

text \<open>
  On the example of the specification, task 1 takes \<^verbatim>\<open>done\<close> and the subtasks of the old
  task and keeps its new title.
\<close>

theorem matched_task_fields_witness:
  "merge_tasks example_old example_new = Inr example_merged \<and>
   task_key (JDict old_task_1) = Inr (KInt 1) \<and>
   task_key (JDict new_task_1) = Inr (KInt 1) \<and>
   field ''status'' (task_list example_merged ! 0) = Some (JStr ''done'') \<and>
   field ''subtasks'' (task_list example_merged ! 0) =
     Some (JList [JDict [(''id'', JStr ''1.1'')]]) \<and>
   field ''title'' (task_list example_merged ! 0) = Some (JStr ''A'')"
proof -
  have olds: "tasks_of example_old = Inr ([] @ JDict old_task_1 # [JDict old_task_2])"
    by (simp add: example_old_tasks)
  have last: "\<forall>t\<in>set [JDict old_task_2]. task_key t \<noteq> Inr (KInt 1)"
    by (simp add: example_keys)
  have pos: "0 < length (task_list example_new)" "task_list example_new ! 0 = JDict new_task_1"
    by (simp_all add: example_new_tasks)
  note fields = matched_task_fields [OF example_eval olds example_keys(1) last pos example_keys(3)]
  from fields have "field ''title'' (task_list example_merged ! 0) = field ''title'' (JDict new_task_1)"
    by simp
  with fields show ?thesis
    by (simp add: example_eval task_key_def old_task_1_def new_task_1_def)
qed

text \<open>
  The claim as the specification words it (the merged \<^verbatim>\<open>subtasks\<close> equal the old task's
  field) fails where the old task has no \<^verbatim>\<open>subtasks\<close>: the merged task then carries the
  new task's subtasks.
\<close>

theorem matched_task_fields_counterexample:
  "merge_tasks
     (JDict [(''tasks'', JList [JDict [(''id'', JInt 1), (''status'', JStr ''done'')]])])
     (JDict [(''tasks'', JList [JDict [(''id'', JInt 1), (''status'', JStr ''pending''),
        (''title'', JStr ''A''), (''subtasks'', JList [JDict [(''id'', JStr ''1.1'')]])]])]) =
   Inr (JDict [(''tasks'', JList [JDict [(''id'', JInt 1), (''status'', JStr ''done''),
        (''title'', JStr ''A''), (''subtasks'', JList [JDict [(''id'', JStr ''1.1'')]])]])]) \<and>
   field ''subtasks'' (JDict [(''id'', JInt 1), (''status'', JStr ''done'')]) = None \<and>
   field ''subtasks'' (JDict [(''id'', JInt 1), (''status'', JStr ''done''),
        (''title'', JStr ''A''), (''subtasks'', JList [JDict [(''id'', JStr ''1.1'')]])]) \<noteq>
   field ''subtasks'' (JDict [(''id'', JInt 1), (''status'', JStr ''done'')])"
  by (simp add: merge_tasks_def existing_tasks_map_def merged_tasks_def dict_get_def)

text \<open>
  Claim C2, as the code has it. For a new task whose \<^verbatim>\<open>id\<close> is the key of an old task,
  the merged \<^verbatim>\<open>subtasks\<close> is the old task's when the old task has the field; when it has
  none, it is the new task's \<^verbatim>\<open>subtasks\<close> when present and the empty list only when the
  new task has none either.
\<close>

theorem matched_task_subtasks:
  assumes "merge_tasks existing_tasks new_tasks = Inr merged"
    and "tasks_of existing_tasks = Inr (pre @ JDict old # post)"
    and "task_key (JDict old) = Inr k"
    and "\<forall>t\<in>set post. task_key t \<noteq> Inr k"
    and "i < length (task_list new_tasks)" and "task_list new_tasks ! i = JDict new"
    and "task_key (JDict new) = Inr k"
  shows "field ''subtasks'' (task_list merged ! i) =
           Some (case field ''subtasks'' (JDict old) of
                   Some u \<Rightarrow> u
                 | None \<Rightarrow> dict_get new ''subtasks'' (JList []))"
proof -
  from assms obtain s where
    out: "task_list merged ! i =
       JDict (AList.update ''subtasks''
               (dict_get old ''subtasks'' (dict_get new ''subtasks'' (JList [])))
               (AList.update ''status'' (dict_get old ''status'' s) new))"
    by (rule merged_entry_matched)
  show ?thesis
    unfolding out by (simp add: update_conv' dict_get_def split: option.splits)
qed

text \<open>
  An old task without \<^verbatim>\<open>subtasks\<close>, a new task with some: the merged task has the new
  task's.
\<close>

theorem matched_task_subtasks_witness:
  "merge_tasks plain_old detailed_new = Inr detailed_merged \<and>
   field ''subtasks'' (JDict [(''id'', JInt 1), (''status'', JStr ''done'')]) = None \<and>
   field ''subtasks'' (task_list detailed_merged ! 0) =
     Some (JList [JDict [(''id'', JStr ''1.1'')]])"
proof -
  have run: "merge_tasks plain_old detailed_new = Inr detailed_merged"
    by (simp add: merge_tasks_def existing_tasks_map_def merged_tasks_def dict_get_def
        plain_old_def detailed_new_def detailed_task_def detailed_merged_def)
  have olds: "tasks_of plain_old =
      Inr ([] @ JDict [(''id'', JInt 1), (''status'', JStr ''done'')] # [])"
    by (simp add: tasks_of_def plain_old_def)
  have key_old: "task_key (JDict [(''id'', JInt 1), (''status'', JStr ''done'')]) = Inr (KInt 1)"
    by (simp add: task_key_def)
  have last: "\<forall>t\<in>set []. task_key t \<noteq> Inr (KInt 1)"
    by simp
  have pos: "0 < length (task_list detailed_new)" "task_list detailed_new ! 0 = JDict detailed_task"
    by (simp_all add: task_list_def tasks_of_def detailed_new_def)
  have key_new: "task_key (JDict detailed_task) = Inr (KInt 1)"
    by (simp add: task_key_def detailed_task_def)
  from matched_task_subtasks [OF run olds key_old last pos key_new] run show ?thesis
    by (simp add: dict_get_def detailed_task_def)
qed

text \<open>
  The claim as worded (an old task without \<^verbatim>\<open>subtasks\<close> gives the empty list, not the
  new task's subtasks) fails: the merged task has the new task's one subtask.
\<close>

theorem matched_task_subtasks_counterexample:
  "merge_tasks
     (JDict [(''tasks'', JList [JDict [(''id'', JInt 7), (''status'', JStr ''in-progress'')]])])
     (JDict [(''tasks'', JList [JDict [(''id'', JInt 7), (''status'', JStr ''pending''),
        (''subtasks'', JList [JDict [(''id'', JInt 1), (''title'', JStr ''x'')]])]])]) =
   Inr (JDict [(''tasks'', JList [JDict [(''id'', JInt 7), (''status'', JStr ''in-progress''),
        (''subtasks'', JList [JDict [(''id'', JInt 1), (''title'', JStr ''x'')]])]])]) \<and>
   field ''subtasks'' (JDict [(''id'', JInt 7), (''status'', JStr ''in-progress'')]) = None \<and>
   field ''subtasks'' (JDict [(''id'', JInt 7), (''status'', JStr ''in-progress''),
        (''subtasks'', JList [JDict [(''id'', JInt 1), (''title'', JStr ''x'')]])]) \<noteq>
   Some (JList [])"
  by (simp add: merge_tasks_def existing_tasks_map_def merged_tasks_def dict_get_def)

text \<open>
  Claim C3, as the code has it. For a new task whose \<^verbatim>\<open>id\<close> is the key of no old task,
  the merged task is the new task itself when the new task has a \<^verbatim>\<open>subtasks\<close> field,
  and otherwise the new task with \<^verbatim>\<open>subtasks\<close>, the empty list, added at the end.
\<close>

theorem unmatched_task_entry:
  assumes "merge_tasks existing_tasks new_tasks = Inr merged"
    and "i < length (task_list new_tasks)" and "task_list new_tasks ! i = JDict new"
    and "task_key (JDict new) = Inr k"
    and "\<forall>t\<in>set (task_list existing_tasks). task_key t \<noteq> Inr k"
  shows "task_list merged ! i =
           (case field ''subtasks'' (JDict new) of
              Some u \<Rightarrow> JDict new
            | None \<Rightarrow> JDict (new @ [(''subtasks'', JList [])]))"
proof -
  from assms(1,2) obtain m where m: "tasks_by_id [] (task_list existing_tasks) = Inr m"
    "merged_task m (task_list new_tasks ! i) = Inr (task_list merged ! i)"
    by (rule merged_entry_at)
  from m(1) assms(5) have look: "map_of m k = None"
    by (auto dest: tasks_by_id_other)
  from m(2) assms(3) have "merged_task m (JDict new) = Inr (task_list merged ! i)"
    by simp
  then obtain s where s: "map_of new ''status'' = Some s"
    by (elim merged_task_InrD) auto
  have st: "AList.update ''status'' s new = new"
    using s by (rule update_triv)
  from merged_task_eq [OF assms(4) s, of m] m(2) assms(3) look
  have out: "task_list merged ! i =
      JDict (AList.update ''subtasks'' (dict_get new ''subtasks'' (JList [])) new)"
    by (simp add: dict_get_def st)
  show ?thesis
    unfolding out
    by (simp add: dict_get_def update_triv update_absent split: option.splits)
qed

text \<open>
  Task 3 of the example has no counterpart and no \<^verbatim>\<open>subtasks\<close>: it gains an empty one.
\<close>

theorem unmatched_task_entry_witness:
  "merge_tasks example_old example_new = Inr example_merged \<and>
   task_key (JDict new_task_3) = Inr (KInt 3) \<and>
   task_key (JDict old_task_1) \<noteq> Inr (KInt 3) \<and>
   task_key (JDict old_task_2) \<noteq> Inr (KInt 3) \<and>
   task_list example_merged ! 1 = JDict (new_task_3 @ [(''subtasks'', JList [])])"
proof -
  have pos: "1 < length (task_list example_new)" "task_list example_new ! 1 = JDict new_task_3"
    by (simp_all add: example_new_tasks)
  have none: "\<forall>t\<in>set (task_list example_old). task_key t \<noteq> Inr (KInt 3)"
    by (simp add: task_list_def example_old_tasks example_keys)
  from unmatched_task_entry [OF example_eval pos example_keys(4) none] show ?thesis
    by (simp add: example_eval task_key_def old_task_1_def old_task_2_def new_task_3_def)
qed

text \<open>
  The claim as worded (the merged task equals the new task exactly, no field added) fails
  for a new task without \<^verbatim>\<open>subtasks\<close>.
\<close>

theorem unmatched_task_entry_counterexample:
  "merge_tasks
     (JDict [(''tasks'', JList [])])
     (JDict [(''tasks'', JList [JDict [(''id'', JInt 3), (''status'', JStr ''pending''),
        (''title'', JStr ''C'')]])]) =
   Inr (JDict [(''tasks'', JList [JDict [(''id'', JInt 3), (''status'', JStr ''pending''),
        (''title'', JStr ''C''), (''subtasks'', JList [])]])]) \<and>
   JDict [(''id'', JInt 3), (''status'', JStr ''pending''), (''title'', JStr ''C''),
          (''subtasks'', JList [])] \<noteq>
   JDict [(''id'', JInt 3), (''status'', JStr ''pending''), (''title'', JStr ''C'')]"
  by (simp add: merge_tasks_def existing_tasks_map_def merged_tasks_def dict_get_def)

text \<open>
  Claim C4. Whenever the merge produces a document, its task sequence is as long as the
  new collection's, and the task at each position has the \<^verbatim>\<open>id\<close> of the new task at that
  position.
\<close>

theorem merged_length_and_order:
  assumes "merge_tasks existing_tasks new_tasks = Inr merged"
  shows "tasks_of new_tasks = Inr (task_list new_tasks) \<and>
         tasks_of merged = Inr (task_list merged) \<and>
         length (task_list merged) = length (task_list new_tasks) \<and>
         (\<forall>i < length (task_list new_tasks).
            field ''id'' (task_list new_tasks ! i) \<noteq> None \<and>
            field ''id'' (task_list merged ! i) = field ''id'' (task_list new_tasks ! i))"
proof -
  from assms obtain m where m: "tasks_of new_tasks = Inr (task_list new_tasks)"
    "tasks_of merged = Inr (task_list merged)"
    "list_all2 (\<lambda>x y. merged_task m x = Inr y) (task_list new_tasks) (task_list merged)"
    by (rule merge_tasks_InrD)
  have len: "length (task_list merged) = length (task_list new_tasks)"
    using m(3) by (simp add: list_all2_lengthD)
  have "field ''id'' (task_list new_tasks ! i) \<noteq> None \<and>
        field ''id'' (task_list merged ! i) = field ''id'' (task_list new_tasks ! i)"
    if "i < length (task_list new_tasks)" for i
  proof -
    from m(3) that have mt: "merged_task m (task_list new_tasks ! i) = Inr (task_list merged ! i)"
      by (rule list_all2_nthD)
    then have "field ''id'' (task_list new_tasks ! i) \<noteq> None"
      by (auto elim!: merged_task_InrD)
    with mt show ?thesis by (simp add: merged_task_field)
  qed
  with m(1,2) len show ?thesis by blast
qed

theorem merged_length_and_order_witness:
  "merge_tasks example_old example_new = Inr example_merged \<and>
   length (task_list example_merged) = length (task_list example_new) \<and>
   field ''id'' (task_list example_merged ! 1) = field ''id'' (task_list example_new ! 1)"
proof -
  have e: "merge_tasks example_old example_new = Inr example_merged"
    by (rule example_eval)
  have "(1::nat) < length (task_list example_new)"
    by (simp add: example_new_tasks)
  with merged_length_and_order [OF e] e show ?thesis by blast
qed

text \<open>
  Claim C5. A task whose \<^verbatim>\<open>id\<close> appears in the old collection and not in the new one is
  no error and leaves no trace: when every old task has a hashable \<^verbatim>\<open>id\<close> and every new
  task a hashable \<^verbatim>\<open>id\<close> and a \<^verbatim>\<open>status\<close>, the merge produces a document, and no task of
  that document has that \<^verbatim>\<open>id\<close>.
\<close>

theorem old_only_tasks_dropped:
  assumes "tasks_of existing_tasks = Inr olds" and "tasks_of new_tasks = Inr news"
    and "\<forall>t\<in>set olds. \<exists>k. task_key t = Inr k"
    and "\<forall>t\<in>set news. (\<exists>k. task_key t = Inr k) \<and> field ''status'' t \<noteq> None"
    and "old \<in> set olds" and "field ''id'' old = Some v"
    and "\<forall>t\<in>set news. field ''id'' t \<noteq> Some v"
  shows "\<exists>merged. merge_tasks existing_tasks new_tasks = Inr merged \<and>
           (\<forall>t\<in>set (task_list merged). field ''id'' t \<noteq> Some v)"
proof -
  from assms(3) obtain m where m: "tasks_by_id [] olds = Inr m"
    using tasks_by_id_Inr_iff [of "[]" olds] by blast
  from assms(4) obtain ms where ms: "merge_each m news = Inr ms"
    using merge_each_Inr_iff [of m news] by blast
  let ?merged = "JDict [(''tasks'', JList ms)]"
  have run: "merge_tasks existing_tasks new_tasks = Inr ?merged"
    using assms(1,2) m ms by (simp add: merge_tasks_unfold)
  have tl: "task_list ?merged = ms"
    by (simp add: task_list_def tasks_of_def)
  have "field ''id'' t \<noteq> Some v" if "t \<in> set ms" for t
  proof -
    from that obtain i where i: "i < length ms" "ms ! i = t"
      by (auto simp: in_set_conv_nth)
    from ms have all2: "list_all2 (\<lambda>x y. merged_task m x = Inr y) news ms"
      by (simp add: merge_each_list_all2)
    then have len: "length news = length ms" by (rule list_all2_lengthD)
    from i(1) len have "i < length news" by simp
    with all2 have "merged_task m (news ! i) = Inr (ms ! i)"
      by (rule list_all2_nthD)
    then have "field ''id'' (ms ! i) = field ''id'' (news ! i)"
      by (simp add: merged_task_field)
    moreover from i(1) len have "news ! i \<in> set news" by simp
    ultimately show ?thesis using assms(7) i(2) by auto
  qed
  with run tl show ?thesis by auto
qed

text \<open>
  Task 2 of the example is in the old collection only.
\<close>

theorem old_only_tasks_dropped_witness:
  "merge_tasks example_old example_new = Inr example_merged \<and>
   field ''id'' (JDict old_task_2) = Some (JInt 2) \<and>
   field ''id'' (task_list example_merged ! 0) \<noteq> Some (JInt 2) \<and>
   field ''id'' (task_list example_merged ! 1) \<noteq> Some (JInt 2)"
proof -
  have news: "tasks_of example_new = Inr (task_list example_new)"
    by (simp add: task_list_def tasks_of_def example_new_def)
  have wf_old: "\<forall>t\<in>set [JDict old_task_1, JDict old_task_2]. \<exists>k. task_key t = Inr k"
    by (simp add: example_keys)
  have wf_new: "\<forall>t\<in>set (task_list example_new).
      (\<exists>k. task_key t = Inr k) \<and> field ''status'' t \<noteq> None"
    by (simp add: example_new_tasks example_keys) (simp add: new_task_1_def new_task_3_def)
  have old: "JDict old_task_2 \<in> set [JDict old_task_1, JDict old_task_2]"
    "field ''id'' (JDict old_task_2) = Some (JInt 2)"
    by (simp_all add: old_task_2_def)
  have absent: "\<forall>t\<in>set (task_list example_new). field ''id'' t \<noteq> Some (JInt 2)"
    by (simp add: example_new_tasks new_task_1_def new_task_3_def)
  from old_only_tasks_dropped [OF example_old_tasks news wf_old wf_new old absent]
  have "\<forall>t\<in>set (task_list example_merged). field ''id'' t \<noteq> Some (JInt 2)"
    by (simp add: example_eval)
  moreover have "length (task_list example_merged) = 2"
    by (simp add: task_list_example_merged)
  ultimately show ?thesis
    using old(2) by (simp add: example_eval)
qed

text \<open>
  Claim C6, as the code has it. When the merge produces a document and the tasks of the
  new collection have pairwise distinct dictionary keys (a boolean \<^verbatim>\<open>id\<close> and the integer
  it equals are the same key), merging that document with the same new collection gives
  the document again.
\<close>

theorem merge_idempotent:
  assumes "merge_tasks existing_tasks new_tasks = Inr merged"
    and "distinct (map task_key (task_list new_tasks))"
  shows "merge_tasks merged new_tasks = Inr merged"
proof -
  let ?news = "task_list new_tasks" and ?ms = "task_list merged"
  from assms(1) obtain m where news: "tasks_of new_tasks = Inr ?news"
    and merged: "merged = JDict [(''tasks'', JList ?ms)]"
    and ms: "tasks_of merged = Inr ?ms"
    and all2: "list_all2 (\<lambda>x y. merged_task m x = Inr y) ?news ?ms"
    by (rule merge_tasks_InrD)
  from all2 have len: "length ?news = length ?ms" by (rule list_all2_lengthD)
  have step: "merged_task m (?news ! i) = Inr (?ms ! i)" if "i < length ?ms" for i
    using all2 that by (rule list_all2_nthD2)
  have keys: "map task_key ?ms = map task_key ?news"
    by (rule nth_equalityI) (simp_all add: len step [THEN merged_task_key])
  have "\<forall>x\<in>set ?ms. \<exists>k. task_key x = Inr k"
  proof
    fix x assume "x \<in> set ?ms"
    then obtain i where i: "i < length ?ms" "x = ?ms ! i"
      by (auto simp: in_set_conv_nth)
    from step [OF i(1)] have "\<exists>k. task_key (?news ! i) = Inr k"
      using merged_task_Inr_iff [of m "?news ! i"] by blast
    with step [OF i(1)] i(2) show "\<exists>k. task_key x = Inr k"
      by (simp add: merged_task_key)
  qed
  then obtain m2 where m2: "tasks_by_id [] ?ms = Inr m2"
    using tasks_by_id_Inr_iff [of "[]" ?ms] by blast
  have again: "merged_task m2 (?news ! i) = Inr (?ms ! i)" if i: "i < length ?ms" for i
  proof -
    from step [OF i] obtain kvs v k t where n: "?news ! i = JDict kvs"
      and v: "map_of kvs ''id'' = Some v" "py_hash v = Inr k" and t: "?ms ! i = JDict t"
      by (rule merged_task_InrD) blast
    from n v have k: "task_key (?news ! i) = Inr k"
      by (simp add: task_key_def)
    from merged_task_key [OF step [OF i]] k t have kt: "task_key (JDict t) = Inr k"
      by simp
    from assms(2) keys have "distinct (map task_key ?ms)" by simp
    from distinct_map_later [OF this i] kt t
    have later: "\<forall>x\<in>set (drop (Suc i) ?ms). task_key x \<noteq> Inr k" by simp
    have "?ms = take i ?ms @ JDict t # drop (Suc i) ?ms"
      by (subst t [symmetric]) (rule id_take_nth_drop [OF i])
    with m2 have "tasks_by_id [] (take i ?ms @ JDict t # drop (Suc i) ?ms) = Inr m2"
      by simp
    from tasks_by_id_last [OF this kt later] have "map_of m2 k = Some t" .
    from step [OF i] have "merged_task m (?news ! i) = Inr (JDict t)"
      by (simp only: t)
    from merged_task_again [OF this k \<open>map_of m2 k = Some t\<close>] show ?thesis
      by (simp only: t)
  qed
  have "list_all2 (\<lambda>x y. merged_task m2 x = Inr y) ?news ?ms"
    by (rule list_all2_all_nthI) (simp_all add: len again)
  then have "merge_each m2 ?news = Inr ?ms"
    by (simp add: merge_each_list_all2)
  with ms m2 news have "merge_tasks merged new_tasks = Inr (JDict [(''tasks'', JList ?ms)])"
    by (simp add: merge_tasks_unfold)
  with merged show ?thesis by simp
qed

theorem merge_idempotent_witness:
  "merge_tasks example_old example_new = Inr example_merged \<and>
   distinct (map task_key (task_list example_new)) \<and>
   merge_tasks example_merged example_new = Inr example_merged"
proof -
  have d: "distinct (map task_key (task_list example_new))"
    by (simp add: example_new_tasks example_keys)
  from merge_idempotent [OF example_eval d] d show ?thesis
    by (simp add: example_eval)
qed

text \<open>
  The claim as worded fails even where the \<^verbatim>\<open>id\<close> values of the new collection are
  pairwise different: the new tasks have the ids \<^verbatim>\<open>1\<close> and \<^verbatim>\<open>true\<close>, two JSON values that
  are one dictionary key, and differ in \<^verbatim>\<open>status\<close>; the old collection is empty. The
  first merge keeps both statuses; in the second, the dictionary built from the first
  result holds only its last task under that key, so both merged tasks take that task's
  \<^verbatim>\<open>done\<close>.
\<close>

theorem merge_idempotent_counterexample:
  "JInt 1 \<noteq> JBool True \<and>
   py_hash (JInt 1) = py_hash (JBool True) \<and>
   merge_tasks
     (JDict [(''tasks'', JList [])])
     (JDict [(''tasks'', JList [JDict [(''id'', JInt 1), (''status'', JStr ''pending'')],
                                JDict [(''id'', JBool True), (''status'', JStr ''done'')]])]) =
   Inr (JDict [(''tasks'', JList [
          JDict [(''id'', JInt 1), (''status'', JStr ''pending''), (''subtasks'', JList [])],
          JDict [(''id'', JBool True), (''status'', JStr ''done''), (''subtasks'', JList [])]])]) \<and>
   merge_tasks
     (JDict [(''tasks'', JList [
          JDict [(''id'', JInt 1), (''status'', JStr ''pending''), (''subtasks'', JList [])],
          JDict [(''id'', JBool True), (''status'', JStr ''done''), (''subtasks'', JList [])]])])
     (JDict [(''tasks'', JList [JDict [(''id'', JInt 1), (''status'', JStr ''pending'')],
                                JDict [(''id'', JBool True), (''status'', JStr ''done'')]])]) =
   Inr (JDict [(''tasks'', JList [
          JDict [(''id'', JInt 1), (''status'', JStr ''done''), (''subtasks'', JList [])],
          JDict [(''id'', JBool True), (''status'', JStr ''done''), (''subtasks'', JList [])]])])"
  by (simp add: merge_tasks_def existing_tasks_map_def merged_tasks_def dict_get_def)

text \<open>
  Claim C7, as the code has it. When a task of either collection has no \<^verbatim>\<open>id\<close>, the merge
  raises and produces no document. When every entry of both collections is a \<^verbatim>\<open>dict\<close>
  whose \<^verbatim>\<open>id\<close>, if present, is hashable, the exception is a \<^verbatim>\<open>KeyError\<close>: for \<^verbatim>\<open>id\<close>
  when the task without \<^verbatim>\<open>id\<close> is an old one, and otherwise for \<^verbatim>\<open>id\<close> or for the
  \<^verbatim>\<open>status\<close> that a new task before it, one that has an \<^verbatim>\<open>id\<close>, lacks.
\<close>

theorem missing_id_fails:
  assumes "tasks_of existing_tasks = Inr olds" and "tasks_of new_tasks = Inr news"
    and "t \<in> set olds \<union> set news" and "field ''id'' t = None"
  shows "(\<exists>e. merge_tasks existing_tasks new_tasks = Inl e) \<and>
         ((\<forall>x\<in>set olds \<union> set news. hashable_entry x) \<longrightarrow>
            (t \<in> set olds \<longrightarrow> merge_tasks existing_tasks new_tasks = Inl (KeyError ''id'')) \<and>
            (merge_tasks existing_tasks new_tasks = Inl (KeyError ''id'') \<or>
             merge_tasks existing_tasks new_tasks = Inl (KeyError ''status'') \<and>
             (\<exists>pre n post. news = pre @ n # post \<and> field ''status'' n = None \<and>
                 field ''id'' n \<noteq> None \<and> t \<in> set post)))"
proof -
  have lists: "task_list existing_tasks = olds" "task_list new_tasks = news"
    using assms(1,2) by (simp_all add: task_list_def)
  have no: "merge_tasks existing_tasks new_tasks \<noteq> Inr merged" for merged
  proof
    assume "merge_tasks existing_tasks new_tasks = Inr merged"
    from merge_needs_all_fields [OF this] have "\<forall>x\<in>set olds \<union> set news. field ''id'' x \<noteq> None"
      unfolding lists by blast
    with assms(3,4) show False by blast
  qed
  then obtain e where e: "merge_tasks existing_tasks new_tasks = Inl e"
    using merge_tasks_not_Inr by blast
  have old_case: "merge_tasks existing_tasks new_tasks = Inl (KeyError ''id'')"
    if "\<forall>x\<in>set olds \<union> set news. hashable_entry x" and "t \<in> set olds"
    using idless_old_error [OF assms(1) that(2) assms(4)] that(1) by blast
  have kind: "e = KeyError ''id'' \<or>
      e = KeyError ''status'' \<and>
      (\<exists>pre n post. news = pre @ n # post \<and> field ''status'' n = None \<and>
          field ''id'' n \<noteq> None \<and> t \<in> set post)"
    if h: "\<forall>x\<in>set olds \<union> set news. hashable_entry x"
  proof (cases "t \<in> set olds")
    case True
    with old_case [OF h] e show ?thesis by simp
  next
    case False
    with assms(3) have t_new: "t \<in> set news" by simp
    show ?thesis
    proof (cases "tasks_by_id [] olds")
      case (Inl e')
      with e assms(1) have "e' = e" by (simp add: merge_tasks_unfold)
      with Inl h show ?thesis using tasks_by_id_error [of olds "[]" e] by simp
    next
      case (Inr m)
      with e assms(1,2) have run: "merge_each m news = Inl e"
        by (simp add: merge_tasks_unfold split: sum.splits)
      with h have "e = KeyError ''id'' \<or> e = KeyError ''status''"
        using merge_each_error [of news m e] by simp
      then show ?thesis
      proof
        assume "e = KeyError ''id''"
        then show ?thesis by simp
      next
        assume st: "e = KeyError ''status''"
        from merge_each_first_error [OF run] obtain pre n post ms where
          *: "news = pre @ n # post" "merge_each m pre = Inr ms" "merged_task m n = Inl e"
          by blast
        from *(3) st have n: "field ''status'' n = None" "field ''id'' n \<noteq> None"
          using merged_task_status_error [of m n] by simp_all
        from *(2) have "\<forall>x\<in>set pre. \<exists>k. task_key x = Inr k"
          using merge_each_Inr_iff [of m pre] by blast
        then have "\<forall>x\<in>set pre. field ''id'' x \<noteq> None"
          by (blast dest: task_key_field)
        with assms(4) have "t \<notin> set pre" by blast
        moreover from n(2) assms(4) have "t \<noteq> n" by auto
        ultimately have "t \<in> set post" using t_new *(1) by simp
        with st *(1) n show ?thesis by blast
      qed
    qed
  qed
  from e old_case kind show ?thesis by auto
qed

text \<open>
  A new task without \<^verbatim>\<open>id\<close> that has a \<^verbatim>\<open>status\<close>, after old tasks that all have an
  \<^verbatim>\<open>id\<close>: the exception is the \<^verbatim>\<open>KeyError\<close> for \<^verbatim>\<open>id\<close>.
\<close>

theorem missing_id_fails_witness:
  "field ''id'' (JDict idless_task) = None \<and>
   hashable_entry (JDict old_task_1) \<and> hashable_entry (JDict old_task_2) \<and>
   hashable_entry (JDict idless_task) \<and>
   merge_tasks example_old idless_new = Inl (KeyError ''id'')"
proof -
  have news: "tasks_of idless_new = Inr [JDict idless_task]"
    by (simp add: tasks_of_def idless_new_def)
  have t: "JDict idless_task \<in> set [JDict old_task_1, JDict old_task_2] \<union> set [JDict idless_task]"
    by simp
  have noid: "field ''id'' (JDict idless_task) = None"
    by (simp add: idless_task_def)
  have h: "hashable_entry (JDict old_task_1)" "hashable_entry (JDict old_task_2)"
    "hashable_entry (JDict idless_task)"
    by (simp_all add: hashable_entry_def old_task_1_def old_task_2_def idless_task_def)
  have st: "field ''status'' (JDict idless_task) \<noteq> None"
    by (simp add: idless_task_def)
  have single: "\<not> (\<exists>pre n post. [JDict idless_task] = pre @ n # post \<and>
      field ''status'' n = None \<and> field ''id'' n \<noteq> None \<and> JDict idless_task \<in> set post)"
    by (auto simp: Cons_eq_append_conv)
  have wf: "\<forall>x\<in>set [JDict old_task_1, JDict old_task_2] \<union> set [JDict idless_task].
      hashable_entry x"
    using h by simp
  from missing_id_fails [OF example_old_tasks news t noid] wf
  have "merge_tasks example_old idless_new = Inl (KeyError ''id'') \<or>
        merge_tasks example_old idless_new = Inl (KeyError ''status'') \<and>
        (\<exists>pre n post. [JDict idless_task] = pre @ n # post \<and>
           field ''status'' n = None \<and> field ''id'' n \<noteq> None \<and> JDict idless_task \<in> set post)"
    by blast
  with single have "merge_tasks example_old idless_new = Inl (KeyError ''id'')"
    by blast
  with noid h show ?thesis by simp
qed

text \<open>
  The claim as worded (a missing-key error whenever a task has no \<^verbatim>\<open>id\<close>) fails where an
  earlier task has an unhashable \<^verbatim>\<open>id\<close>: the second old task has no \<^verbatim>\<open>id\<close>, and the
  exception is the \<^verbatim>\<open>TypeError\<close> of the first.
\<close>

theorem missing_id_fails_counterexample:
  "field ''id'' (JDict [(''status'', JStr ''pending'')]) = None \<and>
   merge_tasks
     (JDict [(''tasks'', JList [JDict [(''id'', JList [JInt 1]), (''status'', JStr ''done'')],
                                JDict [(''status'', JStr ''pending'')]])])
     (JDict [(''tasks'', JList [])]) = Inl TypeError"
  by (simp add: merge_tasks_def existing_tasks_map_def)

text \<open>
  Claim C8. On the example of the specification (old tasks 1 and 2, new tasks 1 and 3)
  the script produces exactly the expected document: task 1 with the old status
  \<^verbatim>\<open>done\<close>, the old subtasks and the new title, task 3 as it is with an empty
  \<^verbatim>\<open>subtasks\<close> added at the end, and no task 2.
\<close>

theorem example_merge:
  "merge_tasks example_old example_new = Inr example_merged"
  by (simp add: merge_tasks_def existing_tasks_map_def merged_tasks_def dict_get_def
      example_old_def example_new_def example_merged_def
      old_task_1_def old_task_2_def new_task_1_def new_task_3_def)

text \<open>
  Claim C9, as the code has it. When a new task has no \<^verbatim>\<open>status\<close>, the merge raises,
  whatever the old collection holds. The exception is the \<^verbatim>\<open>KeyError\<close> for \<^verbatim>\<open>status\<close> when
  evaluation reaches that lookup: the dictionary of the old tasks was built, the new
  tasks before this one merged, and this task has a hashable \<^verbatim>\<open>id\<close>.
\<close>

theorem missing_status_fails:
  assumes "tasks_of new_tasks = Inr (pre @ t # post)" and "field ''status'' t = None"
  shows "(\<exists>e. merge_tasks existing_tasks new_tasks = Inl e) \<and>
         (\<forall>m ms k. existing_tasks_map existing_tasks = Inr m \<and> merge_each m pre = Inr ms \<and>
                    task_key t = Inr k \<longrightarrow>
            merge_tasks existing_tasks new_tasks = Inl (KeyError ''status''))"
proof -
  have list: "task_list new_tasks = pre @ t # post"
    using assms(1) by (simp add: task_list_def)
  have no: "merge_tasks existing_tasks new_tasks \<noteq> Inr merged" for merged
  proof
    assume "merge_tasks existing_tasks new_tasks = Inr merged"
    from merge_needs_all_fields(2) [OF this] have "field ''status'' t \<noteq> None"
      unfolding list by simp
    with assms(2) show False by simp
  qed
  then have fails: "\<exists>e. merge_tasks existing_tasks new_tasks = Inl e"
    using merge_tasks_not_Inr by blast
  have "merge_tasks existing_tasks new_tasks = Inl (KeyError ''status'')"
    if m: "existing_tasks_map existing_tasks = Inr m" and ms: "merge_each m pre = Inr ms"
      and k: "task_key t = Inr k" for m ms k
  proof -
    from k obtain kvs where t: "t = JDict kvs" by (auto dest: task_key_InrD)
    with k assms(2) have "merged_task m t = Inl (KeyError ''status'')"
      by (auto simp: task_key_JDict)
    with ms have "merge_each m (pre @ t # post) = Inl (KeyError ''status'')"
      by (simp add: merge_each_append)
    with m assms(1) show ?thesis
      by (simp add: merge_tasks_def merged_tasks_unfold)
  qed
  with fails show ?thesis by blast
qed

text \<open>
  The old task 1 has a \<^verbatim>\<open>status\<close>; the new task 1 has none, and the merge raises
  \<^verbatim>\<open>KeyError\<close> for \<^verbatim>\<open>status\<close>.
\<close>

theorem missing_status_fails_witness:
  "field ''status'' (JDict statusless_task) = None \<and>
   existing_tasks_map example_old = Inr [(KInt 1, old_task_1), (KInt 2, old_task_2)] \<and>
   task_key (JDict statusless_task) = Inr (KInt 1) \<and>
   field ''status'' (JDict old_task_1) = Some (JStr ''done'') \<and>
   merge_tasks example_old statusless_new = Inl (KeyError ''status'')"
proof -
  have news: "tasks_of statusless_new = Inr ([] @ JDict statusless_task # [])"
    by (simp add: tasks_of_def statusless_new_def)
  have nost: "field ''status'' (JDict statusless_task) = None"
    by (simp add: statusless_task_def)
  have m: "existing_tasks_map example_old = Inr [(KInt 1, old_task_1), (KInt 2, old_task_2)]"
    by (simp add: existing_tasks_map_def example_old_def old_task_1_def old_task_2_def)
  have pre: "merge_each [(KInt 1, old_task_1), (KInt 2, old_task_2)] [] = Inr []"
    by simp
  have k: "task_key (JDict statusless_task) = Inr (KInt 1)"
    by (simp add: task_key_def statusless_task_def)
  have st: "field ''status'' (JDict old_task_1) = Some (JStr ''done'')"
    by (simp add: old_task_1_def)
  from missing_status_fails [OF news nost, of example_old] m pre k
  have "merge_tasks example_old statusless_new = Inl (KeyError ''status'')"
    by blast
  with nost m k st show ?thesis by simp
qed

text \<open>
  The claim as worded (the error is the missing-key error on \<^verbatim>\<open>status\<close>) fails where an
  earlier new task raises first: the second new task has no \<^verbatim>\<open>status\<close>, and the exception
  is the \<^verbatim>\<open>KeyError\<close> for the \<^verbatim>\<open>id\<close> the first one lacks.
\<close>

theorem missing_status_fails_counterexample:
  "field ''status'' (JDict [(''id'', JInt 2), (''title'', JStr ''B'')]) = None \<and>
   merge_tasks
     (JDict [(''tasks'', JList [])])
     (JDict [(''tasks'', JList [JDict [(''status'', JStr ''pending''), (''title'', JStr ''A'')],
                                JDict [(''id'', JInt 2), (''title'', JStr ''B'')]])]) =
   Inl (KeyError ''id'')"
  by (simp add: merge_tasks_def existing_tasks_map_def merged_tasks_def)



end
